theory Spec2Isabelle
  imports Main
begin

section \<open>deckset-inline: the directive engine of \<^verbatim>\<open>inliner.py\<close>\<close>

text \<open>
  A shallow embedding of \<^verbatim>\<open>src/deckset_inline/inliner.py\<close>. A Python \<^verbatim>\<open>str\<close> is a
  \<^typ>\<open>string\<close>; one \<^typ>\<open>char\<close> stands for one code point below 256. A raised exception is
  a value of \<open>error\<close>; a generator is the list of the lines it yields together with the
  exception that ends it, if any.
\<close>

subsection \<open>Exceptions\<close>

text \<open>
  \<^verbatim>\<open>InlineError(message, line, lineno)\<close> is the only exception class the module declares.
  The other constructors are the built-in exceptions that its code lets escape.
\<close>

datatype error =
    InlineError string string nat
  | AssertionError
  | TypeError
  | Exception string
  | UnboundLocalError
  | ValueError string
  | OSError string
  | AttributeError

fun is_InlineError :: "error \<Rightarrow> bool" where
  "is_InlineError (InlineError m l n) = True"
| "is_InlineError e = False"

definition digit_char :: "nat \<Rightarrow> char" where
  "digit_char k = char_of (48 + k)"

fun str_nat :: "nat \<Rightarrow> string" where
  "str_nat n = (if n < 10 then [digit_char n] else str_nat (n div 10) @ [digit_char (n mod 10)])"

declare str_nat.simps [simp del]

text \<open>
  \<^verbatim>\<open>super().__init__(f"Line {lineno}: {message}\n{line}")\<close>: the text that
  \<^verbatim>\<open>InlineError(message, line, lineno)\<close> shows.
\<close>

definition InlineError_str :: "string \<Rightarrow> string \<Rightarrow> nat \<Rightarrow> string" where
  "InlineError_str message ln n = ''Line '' @ str_nat n @ '': '' @ message @ ''\<newline>'' @ ln"

subsection \<open>The Python runtime the module runs on\<close>

text \<open>
  What the module takes from outside itself is a parameter of the model:
  \<^item> \<open>feed\<close>: the calls \<^verbatim>\<open>HTMLParser.feed\<close> makes, in order, to the two hooks that
    \<^verbatim>\<open>DirectiveParser\<close> overrides (\<^verbatim>\<open>handle_starttag\<close> and \<^verbatim>\<open>error\<close>);
  \<^item> \<open>int_of\<close>: the built-in \<^verbatim>\<open>int(str)\<close>, \<open>None\<close> where it raises ValueError;
  \<^item> \<open>Path\<close>: the text of \<^verbatim>\<open>pathlib.Path(s)\<close>;
  \<^item> \<open>path_exists\<close>, \<open>path_open\<close>: \<^verbatim>\<open>Path.exists()\<close> and \<^verbatim>\<open>Path.open("r")\<close>, the latter
    giving the lines of the file or the text of the exception it raises. The file system
    does not change during a scan;
  \<^item> \<open>maxsize\<close>: \<^verbatim>\<open>sys.maxsize\<close>.
\<close>

datatype parser_event =
    Starttag string "(string \<times> string option) list"
  | ParserError string

record runtime =
  feed :: "string \<Rightarrow> parser_event list"
  int_of :: "string \<Rightarrow> int option"
  Path :: "string \<Rightarrow> string"
  path_exists :: "string \<Rightarrow> bool"
  path_open :: "string \<Rightarrow> string + string list"
  maxsize :: int

subsection \<open>InlineDirective\<close>

datatype TagType = OPENING | CLOSING

text \<open>
  The dataclass after \<^verbatim>\<open>__post_init__\<close>: \<open>source\<close> holds the path, \<open>start\<close> and \<open>end\<close>
  hold integers.
\<close>

record InlineDirective =
  type :: TagType
  lineno :: nat
  line :: string
  source :: "string option"
  verbatim :: bool
  lang :: "string option"
  start :: "int option"
  end' :: "int option"

text \<open>
  \<^verbatim>\<open>validate_source\<close>, giving the path it stores in \<open>source\<close>. The source that
  \<^verbatim>\<open>parse_directive\<close> passes is a \<^verbatim>\<open>str\<close> or \<^verbatim>\<open>None\<close>, so the test of its type never raises.
\<close>

definition validate_source :: "runtime \<Rightarrow> string \<Rightarrow> nat \<Rightarrow> string option \<Rightarrow> error + string" where
  "validate_source env ln n src =
     (case src of
        None \<Rightarrow> Inl (InlineError ''Source attribute must be present in directive'' ln n)
      | Some s \<Rightarrow>
          (let p = Path env s in
           if \<not> path_exists env p then Inl (InlineError (''File '' @ p @ '' not found'') ln n)
           else (case path_open env p of
                   Inl ex \<Rightarrow> Inl (InlineError ex ln n)
                 | Inr fin \<Rightarrow> Inr p)))"

text \<open>
  \<^verbatim>\<open>try: self.start = int(self.start) except ValueError: self.raise_error(...)\<close>, for the
  attribute called \<open>name\<close>.
\<close>

definition coerce :: "runtime \<Rightarrow> string \<Rightarrow> nat \<Rightarrow> string \<Rightarrow> string option \<Rightarrow> error + int option" where
  "coerce env ln n name v =
     (case v of
        None \<Rightarrow> Inr None
      | Some s \<Rightarrow>
          (case int_of env s of
             None \<Rightarrow> Inl (InlineError (''Invalid value '' @ s @ '' for '' @ name @ '' attribute'') ln n)
           | Some i \<Rightarrow> Inr (Some i)))"

text \<open>
  \<^verbatim>\<open>InlineDirective(type=TagType.OPENING, ...)\<close>: the constructor followed by
  \<^verbatim>\<open>__post_init__\<close>, which validates the source, then \<open>start\<close>, then \<open>end\<close>.
\<close>

definition opening_directive ::
  "runtime \<Rightarrow> nat \<Rightarrow> string \<Rightarrow> string option \<Rightarrow> bool \<Rightarrow> string option \<Rightarrow>
   string option \<Rightarrow> string option \<Rightarrow> error + InlineDirective" where
  "opening_directive env n ln src vb lg st en =
     (case validate_source env ln n src of
        Inl e \<Rightarrow> Inl e
      | Inr p \<Rightarrow>
          (case coerce env ln n ''start'' st of
             Inl e \<Rightarrow> Inl e
           | Inr s \<Rightarrow>
               (case coerce env ln n ''end'' en of
                  Inl e \<Rightarrow> Inl e
                | Inr e \<Rightarrow>
                    Inr \<lparr>type = OPENING, lineno = n, line = ln, source = Some p,
                         verbatim = vb, lang = lg, start = s, end' = e\<rparr>)))"

text \<open>
  \<^verbatim>\<open>InlineDirective(type=TagType.CLOSING, lineno=lineno, line=line)\<close>: every other field
  keeps its default and \<^verbatim>\<open>__post_init__\<close> returns at once.
\<close>

definition closing_directive :: "nat \<Rightarrow> string \<Rightarrow> InlineDirective" where
  "closing_directive n ln =
     \<lparr>type = CLOSING, lineno = n, line = ln, source = None,
      verbatim = True, lang = None, start = None, end' = None\<rparr>"

subsection \<open>contents\<close>

definition stop_msg :: string where
  "stop_msg = ''Stop argument for islice() must be None or an integer: 0 <= x <= sys.maxsize.''"

definition indices_msg :: string where
  "indices_msg = ''Indices for islice() must be None or an integer: 0 <= x <= sys.maxsize.''"

text \<open>
  \<^verbatim>\<open>itertools.islice(it, start, stop)\<close> over the lines of a file: the arguments are checked
  when the slice is made, the stop first. A stop at or before the start gives nothing.
\<close>

definition islice :: "runtime \<Rightarrow> 'a list \<Rightarrow> int \<Rightarrow> int option \<Rightarrow> error + 'a list" where
  "islice env xs a b =
     (if (case b of None \<Rightarrow> False
          | Some e \<Rightarrow> e = - 1 \<or> maxsize env < e \<or> e < - maxsize env - 1)
      then Inl (ValueError stop_msg)
      else if a < 0 \<or> maxsize env < a \<or> (case b of None \<Rightarrow> False | Some e \<Rightarrow> e < - 1)
      then Inl (ValueError indices_msg)
      else Inr (case b of
                  None \<Rightarrow> drop (nat a) xs
                | Some e \<Rightarrow> drop (nat a) (take (nat e) xs)))"

definition fence_open :: "InlineDirective \<Rightarrow> string list" where
  "fence_open d =
     (if verbatim d
      then [''```'' @ (case lang d of None \<Rightarrow> [] | Some l \<Rightarrow> l) @ ''\<newline>'']
      else [])"

definition fence_close :: "InlineDirective \<Rightarrow> string list" where
  "fence_close d = (if verbatim d then [''```\<newline>''] else [])"

text \<open>
  The generator \<^verbatim>\<open>contents\<close>: the lines it yields, and the exception that ends it, if
  any. The fence is yielded before the file is opened and the slice is made.
\<close>

definition contents :: "runtime \<Rightarrow> InlineDirective \<Rightarrow> string list \<times> error option" where
  "contents env d =
     (let a = (case start d of None \<Rightarrow> 0 | Some s \<Rightarrow> s - 1);
          b = end' d
      in case source d of
           None \<Rightarrow> (fence_open d, Some AttributeError)
         | Some p \<Rightarrow>
             (case path_open env p of
                Inl ex \<Rightarrow> (fence_open d, Some (OSError ex))
              | Inr fin \<Rightarrow>
                  (case islice env fin a b of
                     Inl e \<Rightarrow> (fence_open d, Some e)
                   | Inr body \<Rightarrow> (fence_open d @ body @ fence_close d, None))))"

subsection \<open>extract_line_comment\<close>

text \<open>What \<^verbatim>\<open>\s\<close> matches in a \<^verbatim>\<open>str\<close> pattern, among the code points below 256.\<close>

definition isspace :: "char \<Rightarrow> bool" where
  "isspace c = (of_char c \<in> {9, 10, 11, 12, 13, 28, 29, 30, 31, 32, 133, 160 :: nat})"

definition startswith :: "string \<Rightarrow> string \<Rightarrow> bool" where
  "startswith p s = (take (length p) s = p)"

text \<open>
  The tail \<^verbatim>\<open>(.*?)\s*-->\<close> of \<^verbatim>\<open>COMMENT_RE\<close>: the shortest group, of characters other
  than a newline, after which optional white space and \<^verbatim>\<open>-->\<close> follow.
\<close>

fun lazy_group :: "string \<Rightarrow> string option" where
  "lazy_group [] = None"
| "lazy_group (c # cs) =
     (if startswith ''-->'' (dropWhile isspace (c # cs)) then Some []
      else if c = CHR 0x0A then None
      else map_option ((#) c) (lazy_group cs))"

text \<open>\<^verbatim>\<open>COMMENT_RE.match(line)\<close> with \<^verbatim>\<open>COMMENT_RE = ^\s*<!--\s*(.*?)\s*-->\<close>, and its group 1.\<close>

definition extract_line_comment :: "string \<Rightarrow> string option" where
  "extract_line_comment ln =
     (let s = dropWhile isspace ln in
      if startswith ''<!--'' s then lazy_group (dropWhile isspace (drop 4 s)) else None)"

subsection \<open>DirectiveParser and parse_directive\<close>

record DirectiveParser =
  tag :: "string option"
  attrs :: "(string \<times> string option) list option"

text \<open>
  \<^verbatim>\<open>parser.feed(directive)\<close>: \<^verbatim>\<open>handle_starttag\<close> asserts that no tag was seen before,
  \<^verbatim>\<open>error\<close> raises a plain \<^verbatim>\<open>Exception\<close>.
\<close>

fun feed_events :: "DirectiveParser \<Rightarrow> parser_event list \<Rightarrow> error + DirectiveParser" where
  "feed_events p [] = Inr p"
| "feed_events p (Starttag t a # es) =
     (if tag p \<noteq> None then Inl AssertionError
      else feed_events (p\<lparr>tag := Some t, attrs := Some a\<rparr>) es)"
| "feed_events p (ParserError m # es) = Inl (Exception m)"

text \<open>\<^verbatim>\<open>dict(pairs)\<close>: of two pairs with one key the later one stays.\<close>

definition dict :: "('k \<times> 'v) list \<Rightarrow> 'k \<Rightarrow> 'v option" where
  "dict al = map_of (rev al)"

text \<open>\<^verbatim>\<open>attrs.get(k)\<close> on a dictionary whose values may be \<^verbatim>\<open>None\<close>.\<close>

definition get :: "('k \<Rightarrow> 'v option option) \<Rightarrow> 'k \<Rightarrow> 'v option" where
  "get m k = (case m k of None \<Rightarrow> None | Some v \<Rightarrow> v)"

text \<open>\<^verbatim>\<open>re.search(r"^<(inline|python) ", directive) is not None\<close>.\<close>

definition looks_opening :: "string \<Rightarrow> bool" where
  "looks_opening directive =
     (startswith ''<inline '' directive \<or> startswith ''<python '' directive)"

definition is_closing_text :: "string \<Rightarrow> bool" where
  "is_closing_text directive = (directive = ''</inline>'' \<or> directive = ''</python>'')"

definition parse_directive :: "runtime \<Rightarrow> string \<Rightarrow> nat \<Rightarrow> error + InlineDirective option" where
  \<open>parse_directive env ln n =
     (case extract_line_comment ln of
        None \<Rightarrow> Inr None
      | Some directive \<Rightarrow>
          if looks_opening directive then
            (case feed_events \<lparr>tag = None, attrs = None\<rparr> (feed env directive) of
               Inl e \<Rightarrow> Inl e
             | Inr parser \<Rightarrow>
                 (case (tag parser, attrs parser) of
                    (Some t, Some al) \<Rightarrow>
                      (let a = dict al in
                       case a ''src'' of
                         None \<Rightarrow>
                           Inl (InlineError (''Attribute 'src' not set for '' @ t @ '' directive'') ln n)
                       | Some src \<Rightarrow>
                           if t = ''python'' then
                             map_sum id Some
                               (opening_directive env n ln src True (Some ''python'')
                                  (get a ''start'') (get a ''end''))
                           else if t = ''inline'' then
                             map_sum id Some
                               (opening_directive env n ln src
                                  (a ''verbatim'' \<noteq> None \<or> a ''lang'' \<noteq> None) (get a ''lang'')
                                  (get a ''start'') (get a ''end''))
                           else Inl UnboundLocalError)
                  | _ \<Rightarrow> Inl TypeError))
          else if is_closing_text directive then Inr (Some (closing_directive n ln))
          else Inr None)\<close>

subsection \<open>result_generator\<close>

text \<open>
  One turn of the loop of \<^verbatim>\<open>result_generator\<close> on line \<open>ln\<close>, numbered \<open>n\<close>, with
  \<^verbatim>\<open>current_directive = cur\<close>: the lines yielded, and the exception raised or the new
  \<^verbatim>\<open>current_directive\<close>.
\<close>

definition step ::
  "runtime \<Rightarrow> bool \<Rightarrow> InlineDirective option \<Rightarrow> nat \<Rightarrow> string \<Rightarrow>
   string list \<times> (error + InlineDirective option)" where
  "step env clean cur n ln =
     (let out = (if cur = None then [ln] else []) in
      case parse_directive env ln n of
        Inl e \<Rightarrow> (out, Inl e)
      | Inr None \<Rightarrow> (out, Inr cur)
      | Inr (Some directive) \<Rightarrow>
          if type directive = OPENING then
            (case cur of
               Some c \<Rightarrow>
                 (out, Inl (InlineError
                    (''New directive found while previous is still open at line '' @ str_nat (lineno c))
                    ln n))
             | None \<Rightarrow>
                 if \<not> clean then
                   (case contents env directive of
                      (ys, Some e) \<Rightarrow> (out @ ys, Inl e)
                    | (ys, None) \<Rightarrow> (out @ ys, Inr (Some directive)))
                 else (out, Inr (Some directive)))
          else (out @ [ln], Inr None))"

text \<open>The loop \<^verbatim>\<open>for lineno, line in enumerate(input_lines, 1)\<close>, from line number \<open>n\<close> on.\<close>

fun run ::
  "runtime \<Rightarrow> bool \<Rightarrow> InlineDirective option \<Rightarrow> nat \<Rightarrow> string list \<Rightarrow>
   string list \<times> (error + InlineDirective option)" where
  "run env clean cur n [] = ([], Inr cur)"
| "run env clean cur n (ln # rest) =
     (case step env clean cur n ln of
        (out, Inl e) \<Rightarrow> (out, Inl e)
      | (out, Inr cur') \<Rightarrow>
          (case run env clean cur' (Suc n) rest of (out', r) \<Rightarrow> (out @ out', r)))"

definition result_generator :: "runtime \<Rightarrow> string list \<Rightarrow> bool \<Rightarrow> string list \<times> error option" where
  "result_generator env input_lines clean =
     (case run env clean None 1 input_lines of
        (out, Inl e) \<Rightarrow> (out, Some e)
      | (out, Inr None) \<Rightarrow> (out, None)
      | (out, Inr (Some d)) \<Rightarrow>
          (out, Some (InlineError ''Directive not closed at end of file'' (line d) (lineno d))))"

text \<open>\<^verbatim>\<open>check\<close> consumes the generator and drops its lines: what is left is the exception.\<close>

definition check :: "runtime \<Rightarrow> string list \<Rightarrow> bool \<Rightarrow> error option" where
  "check env input_lines clean = snd (result_generator env input_lines clean)"

subsection \<open>Notions the properties below are stated with\<close>

text \<open>
  A line that is no directive: it is no comment line, or its comment text neither starts
  like an opening tag nor is a closing tag.
\<close>

definition not_directive :: "string \<Rightarrow> bool" where
  "not_directive ln =
     (case extract_line_comment ln of
        None \<Rightarrow> True
      | Some directive \<Rightarrow> \<not> looks_opening directive \<and> \<not> is_closing_text directive)"

text \<open>
  The numbers of the lines of a document, numbered from \<open>n\<close>, that parse as a closing
  directive while no directive is open; \<open>opened\<close> tells whether one is open at the start.
\<close>

fun stray_closings :: "runtime \<Rightarrow> bool \<Rightarrow> nat \<Rightarrow> string list \<Rightarrow> nat list" where
  "stray_closings env opened n [] = []"
| "stray_closings env opened n (ln # rest) =
     (case parse_directive env ln n of
        Inr (Some d) \<Rightarrow>
          if type d = OPENING then stray_closings env True (Suc n) rest
          else (if opened then [] else [n]) @ stray_closings env False (Suc n) rest
      | _ \<Rightarrow> stray_closings env opened (Suc n) rest)"

text \<open>
  Every line that the contents of the opening directives of a document, numbered from
  \<open>n\<close>, would put into the output.
\<close>

fun inlined :: "runtime \<Rightarrow> nat \<Rightarrow> string list \<Rightarrow> string list" where
  "inlined env n [] = []"
| "inlined env n (ln # rest) =
     (case parse_directive env ln n of
        Inr (Some d) \<Rightarrow> (if type d = OPENING then fst (contents env d) else [])
      | _ \<Rightarrow> [])
     @ inlined env (Suc n) rest"

text \<open>Lines \<open>a\<close> to \<open>b\<close> of a file, counted from 1, both included.\<close>

definition lines_between :: "'a list \<Rightarrow> nat \<Rightarrow> nat \<Rightarrow> 'a list" where
  "lines_between fin a b = map (\<lambda>i. fin ! (i - 1)) [a..<Suc b]"

text \<open>
  The opening pattern as the specification words it, \<^verbatim>\<open>^<(inline|python)\s\<close>: the tag
  name followed by any white space.
\<close>

definition spec_looks_opening :: "string \<Rightarrow> bool" where
  "spec_looks_opening directive =
     ((startswith ''<inline'' directive \<or> startswith ''<python'' directive)
      \<and> (case drop 7 directive of [] \<Rightarrow> False | c # cs \<Rightarrow> isspace c))"


subsection \<open>A runtime for the examples\<close>

text \<open>
  The calls of \<^verbatim>\<open>HTMLParser.feed\<close> on the tags the examples use: one start tag with its
  attributes in order, two for the text with two tags, none for the tag that is not
  terminated.
\<close>

definition example_feed :: "string \<Rightarrow> parser_event list" where
  \<open>example_feed s =
     (if s = ''<inline src="f">'' then [Starttag ''inline'' [(''src'', Some ''f'')]]
      else if s = ''<inline src="g">'' then [Starttag ''inline'' [(''src'', Some ''g'')]]
      else if s = ''<inline src="h">'' then [Starttag ''inline'' [(''src'', Some ''h'')]]
      else if s = ''<inline src="u">'' then [Starttag ''inline'' [(''src'', Some ''u'')]]
      else if s = ''<inline src="f" start="4" end="6">'' then
        [Starttag ''inline'' [(''src'', Some ''f''), (''start'', Some ''4''), (''end'', Some ''6'')]]
      else if s = ''<python src="f" start="0">'' then
        [Starttag ''python'' [(''src'', Some ''f''), (''start'', Some ''0'')]]
      else if s = ''<inline src="f" end="9223372036854775808">'' then
        [Starttag ''inline'' [(''src'', Some ''f''), (''end'', Some ''9223372036854775808'')]]
      else if s = ''<inline src="f"><b>'' then
        [Starttag ''inline'' [(''src'', Some ''f'')], Starttag ''b'' []]
      else if s = ''<inline src="f"'' then []
      else [])\<close>

definition example_int :: "string \<Rightarrow> int option" where
  "example_int s =
     (if s = ''0'' then Some 0
      else if s = ''4'' then Some 4
      else if s = ''6'' then Some 6
      else if s = ''9223372036854775808'' then Some 9223372036854775808
      else None)"

text \<open>
  File \<open>f\<close> has ten lines, file \<open>h\<close> one line that is itself an opening directive, file
  \<open>u\<close> exists and cannot be opened, and there is no other file.
\<close>

definition file_f :: "string list" where
  "file_f = map (\<lambda>i. ''line '' @ str_nat i @ ''\<newline>'') [1..<11]"

definition open_f :: string where
  \<open>open_f = ''<!-- <inline src="f"> -->\<newline>''\<close>

definition close_inline :: string where
  "close_inline = ''<!-- </inline> -->\<newline>''"

definition file_h :: "string list" where
  "file_h = [open_f]"

definition denied_msg :: string where
  "denied_msg = ''[Errno 13] Permission denied: '' @ [CHR 0x27] @ ''u'' @ [CHR 0x27]"

definition example_open :: "string \<Rightarrow> string + string list" where
  "example_open p =
     (if p = ''f'' then Inr file_f
      else if p = ''h'' then Inr file_h
      else if p = ''u'' then Inl denied_msg
      else Inl ''[Errno 2] No such file or directory'')"

definition example_env :: runtime where
  "example_env =
     \<lparr>feed = example_feed, int_of = example_int, Path = (\<lambda>s. s),
      path_exists = (\<lambda>p. p = ''f'' \<or> p = ''h'' \<or> p = ''u''),
      path_open = example_open, maxsize = 9223372036854775807\<rparr>"



definition open_h :: string where
  \<open>open_h = ''<!-- <inline src="h"> -->\<newline>''\<close>





text \<open>A tag whose name is followed by a tab, not by a space.\<close>

definition tab_text :: string where
  \<open>tab_text = ''<inline'' @ [CHR 0x09] @ ''src="f">''\<close>

definition tab_line :: string where
  "tab_line = ''<!-- '' @ tab_text @ '' -->\<newline>''"

definition start0_line :: string where
  \<open>start0_line = ''<!-- <python src="f" start="0"> -->\<newline>''\<close>

definition range_line :: string where
  \<open>range_line = ''<!-- <inline src="f" start="4" end="6"> -->\<newline>''\<close>

definition huge_end_line :: string where
  \<open>huge_end_line = ''<!-- <inline src="f" end="9223372036854775808"> -->\<newline>''\<close>

section \<open>Properties\<close>

subsection \<open>What parse_directive returns\<close>

lemma opening_directive_fields:
  assumes "opening_directive env n ln src vb lg st en = Inr d"
  shows "type d = OPENING \<and> lineno d = n \<and> line d = ln \<and> verbatim d = vb \<and> lang d = lg"
  using assms
  by (auto simp: opening_directive_def split: sum.splits)

lemma opening_directive_source:
  assumes "opening_directive env n ln src vb lg st en = Inr d"
  shows "\<exists>p fin. source d = Some p \<and> path_exists env p \<and> path_open env p = Inr fin"
  using assms
  by (auto simp: opening_directive_def validate_source_def Let_def
           split: sum.splits option.splits if_splits)

lemma opening_directive_shift:
  assumes "opening_directive env n ln src vb lg st en = Inr d"
  shows "opening_directive env m ln src vb lg st en = Inr (d\<lparr>lineno := m\<rparr>)"
  using assms
  by (auto simp: opening_directive_def validate_source_def coerce_def Let_def
           split: sum.splits option.splits if_splits)

lemma map_sum_Inr_Some [simp]: "map_sum id Some x = Inr (Some d) \<longleftrightarrow> x = Inr d"
  by (cases x) auto

lemma map_sum_Inr_None [simp]: "map_sum id Some x \<noteq> Inr None"
  by (cases x) auto

lemma parse_directive_None_iff:
  "parse_directive env ln n = Inr None \<longleftrightarrow> not_directive ln"
  by (simp add: parse_directive_def not_directive_def Let_def
           split: option.splits sum.splits prod.splits)

lemma parse_directive_opening_text:
  assumes "extract_line_comment ln = Some directive" and "looks_opening directive"
  shows "parse_directive env ln n =
           (case feed_events \<lparr>tag = None, attrs = None\<rparr> (feed env directive) of
              Inl e \<Rightarrow> Inl e
            | Inr parser \<Rightarrow>
                (case (tag parser, attrs parser) of
                   (Some t, Some al) \<Rightarrow>
                     (let a = dict al in
                      case a ''src'' of
                        None \<Rightarrow>
                          Inl (InlineError (''Attribute 'src' not set for '' @ t @ '' directive'') ln n)
                      | Some src \<Rightarrow>
                          if t = ''python'' then
                            map_sum id Some
                              (opening_directive env n ln src True (Some ''python'')
                                 (get a ''start'') (get a ''end''))
                          else if t = ''inline'' then
                            map_sum id Some
                              (opening_directive env n ln src
                                 (a ''verbatim'' \<noteq> None \<or> a ''lang'' \<noteq> None) (get a ''lang'')
                                 (get a ''start'') (get a ''end''))
                          else Inl UnboundLocalError)
                 | _ \<Rightarrow> Inl TypeError))"
  using assms by (simp add: parse_directive_def)

lemma parse_directive_Some:
  assumes "parse_directive env ln n = Inr (Some d)"
  shows "(\<exists>src vb lg st en.
            opening_directive env n ln src vb lg st en = Inr d \<and>
            (\<forall>m. parse_directive env ln m =
                  map_sum id Some (opening_directive env m ln src vb lg st en)))
         \<or> (d = closing_directive n ln \<and>
             (\<forall>m. parse_directive env ln m = Inr (Some (closing_directive m ln))))"
proof (cases "extract_line_comment ln")
  case None
  with assms show ?thesis by (simp add: parse_directive_def)
next
  case (Some t)
  show ?thesis
  proof (cases "looks_opening t")
    case False
    with Some assms show ?thesis
      by (simp add: parse_directive_def split: if_splits)
  next
    case True
    show ?thesis
    proof (cases "feed_events \<lparr>tag = None, attrs = None\<rparr> (feed env t)")
      case (Inl e)
      with Some True assms show ?thesis by (simp add: parse_directive_def)
    next
      case (Inr parser)
      show ?thesis
      proof (cases "tag parser")
        case None
        with Inr Some True assms show ?thesis by (simp add: parse_directive_def)
      next
        case tg: (Some tg)
        show ?thesis
        proof (cases "attrs parser")
          case None
          with tg Inr Some True assms show ?thesis by (simp add: parse_directive_def)
        next
          case al: (Some al)
          show ?thesis
          proof (cases "dict al ''src''")
            case None
            with al tg Inr Some True assms show ?thesis by (simp add: parse_directive_def)
          next
            case src: (Some src)
            show ?thesis
            proof (cases "tg = ''python''")
              case True
              with src al tg Inr Some \<open>looks_opening t\<close> assms
              have "opening_directive env n ln src True (Some ''python'')
                      (get (dict al) ''start'') (get (dict al) ''end'') = Inr d \<and>
                    (\<forall>m. parse_directive env ln m =
                       map_sum id Some (opening_directive env m ln src True (Some ''python'')
                         (get (dict al) ''start'') (get (dict al) ''end'')))"
                by (simp add: parse_directive_def Let_def)
              then show ?thesis by blast
            next
              case False
              with src al tg Inr Some \<open>looks_opening t\<close> assms
              have "opening_directive env n ln src
                      (dict al ''verbatim'' \<noteq> None \<or> dict al ''lang'' \<noteq> None)
                      (get (dict al) ''lang'')
                      (get (dict al) ''start'') (get (dict al) ''end'') = Inr d \<and>
                    (\<forall>m. parse_directive env ln m =
                       map_sum id Some (opening_directive env m ln src
                         (dict al ''verbatim'' \<noteq> None \<or> dict al ''lang'' \<noteq> None)
                         (get (dict al) ''lang'')
                         (get (dict al) ''start'') (get (dict al) ''end'')))"
                by (simp add: parse_directive_def Let_def split: if_splits)
              then show ?thesis by blast
            qed
          qed
        qed
      qed
    qed
  qed
qed

lemma parse_directive_kind:
  assumes "parse_directive env ln n = Inr (Some d)" and "extract_line_comment ln = Some t"
  shows "type d = OPENING \<longleftrightarrow> looks_opening t"
proof (cases "looks_opening t")
  case False
  with assms show ?thesis
    by (auto simp: parse_directive_def closing_directive_def split: if_splits)
next
  case True
  from assms(1) parse_directive_opening_text [OF assms(2) True, of env n]
  have "type d = OPENING"
    by (auto simp: Let_def split: sum.splits option.splits if_splits prod.splits
             dest: opening_directive_fields)
  with True show ?thesis by simp
qed

lemma parse_directive_where:
  assumes "parse_directive env ln n = Inr (Some d)"
  shows "lineno d = n \<and> line d = ln"
  using parse_directive_Some [OF assms]
  by (auto simp: closing_directive_def dest: opening_directive_fields)

lemma parse_directive_shift:
  assumes "parse_directive env ln n = Inr (Some d)"
  shows "parse_directive env ln m = Inr (Some (d\<lparr>lineno := m\<rparr>))"
  using parse_directive_Some [OF assms]
  by (auto simp: closing_directive_def dest: opening_directive_shift)

lemma contents_lineno [simp]: "contents env (d\<lparr>lineno := m\<rparr>) = contents env d"
  by (simp add: contents_def fence_open_def fence_close_def
           split: option.splits sum.splits)

lemma fence_not_directive:
  "list_all not_directive (fence_open d) \<and> list_all not_directive (fence_close d)"
  by (simp add: fence_open_def fence_close_def not_directive_def extract_line_comment_def
        isspace_def startswith_def)



lemma looks_opening_take:
  "(take 8 t = ''<inline '' \<or> take 8 t = ''<python '') \<longleftrightarrow> looks_opening t"
proof -
  have "length ''<inline '' = 8" and "length ''<python '' = 8" by simp_all
  then show ?thesis
    unfolding looks_opening_def startswith_def by presburger
qed

lemma is_closing_text_eq:
  "(t = ''</inline>'' \<or> t = ''</python>'') \<longleftrightarrow> is_closing_text t"
  by (simp add: is_closing_text_def)

subsection \<open>The loop of result_generator\<close>

lemma step_plain:
  assumes "not_directive ln"
  shows "step env clean cur n ln = (if cur = None then [ln] else [], Inr cur)"
proof -
  from assms have "parse_directive env ln n = Inr None"
    by (simp add: parse_directive_None_iff)
  then show ?thesis by (simp add: step_def)
qed

lemma step_closing:
  assumes "parse_directive env ln n = Inr (Some d)" and "type d \<noteq> OPENING"
  shows "step env clean cur n ln = ((if cur = None then [ln] else []) @ [ln], Inr None)"
  using assms by (simp add: step_def)

lemma step_idle_opening:
  assumes "parse_directive env ln n = Inr (Some d)" and "type d = OPENING"
  shows "step env clean None n ln =
           (if clean then ([ln], Inr (Some d))
            else (case contents env d of
                    (ys, Some e) \<Rightarrow> (ln # ys, Inl e)
                  | (ys, None) \<Rightarrow> (ln # ys, Inr (Some d))))"
  using assms by (simp add: step_def split: prod.splits option.splits)

lemma step_open_opening:
  assumes "parse_directive env ln n = Inr (Some d)" and "type d = OPENING"
  shows "step env clean (Some c) n ln =
         ([], Inl (InlineError
            (''New directive found while previous is still open at line '' @ str_nat (lineno c)) ln n))"
  using assms by (simp add: step_def)

lemma step_error:
  assumes "parse_directive env ln n = Inl e"
  shows "snd (step env clean cur n ln) = Inl e"
  using assms by (simp add: step_def)

lemma run_append:
  assumes "run env clean cur n xs = (out, Inr s)"
  shows "run env clean cur n (xs @ ys) =
         (case run env clean s (n + length xs) ys of (out', r) \<Rightarrow> (out @ out', r))"
  using assms
proof (induction xs arbitrary: cur n out)
  case Nil
  then show ?case by (auto split: prod.splits)
next
  case (Cons x xs)
  then show ?case
    by (auto split: prod.splits sum.splits)
qed

lemma run_stale:
  assumes "list_all not_directive ys"
  shows "run env clean (Some c) k ys = ([], Inr (Some c))"
  using assms by (induction ys arbitrary: k) (simp_all add: step_plain)

lemma run_open_state:
  assumes "run env clean cur n xs = (out, Inr (Some d))"
  shows "cur = Some d \<or>
         (n \<le> lineno d \<and> lineno d < n + length xs \<and> xs ! (lineno d - n) = line d \<and>
          parse_directive env (line d) (lineno d) = Inr (Some d) \<and> type d = OPENING)"
  using assms
proof (induction xs arbitrary: cur n out)
  case Nil
  then show ?case by simp
next
  case (Cons x xs)
  from Cons.prems obtain o1 c1 o2 where
    st: "step env clean cur n x = (o1, Inr c1)" and
    rn: "run env clean c1 (Suc n) xs = (o2, Inr (Some d))"
    by (auto split: prod.splits sum.splits)
  from Cons.IH [OF rn] consider
    (a) "c1 = Some d" |
    (b) "Suc n \<le> lineno d" "lineno d < Suc n + length xs" "xs ! (lineno d - Suc n) = line d"
        "parse_directive env (line d) (lineno d) = Inr (Some d)" "type d = OPENING"
    by blast
  then show ?case
  proof cases
    case a
    with st have "cur = Some d \<or>
        (parse_directive env x n = Inr (Some d) \<and> type d = OPENING)"
      by (auto simp: step_def Let_def split: sum.splits option.splits if_splits prod.splits)
    then show ?thesis
      using parse_directive_where [of env x n d] by auto
  next
    case b
    then have "(x # xs) ! (lineno d - n) = line d"
      by (simp add: nth_Cons split: nat.splits) (metis Suc_diff_le diff_Suc_Suc old.nat.inject)
    with b show ?thesis by auto
  qed
qed

subsection \<open>Slices of a file\<close>

lemma drop_take_nth:
  "drop a (take b xs) = map ((!) xs) [a..<min b (length xs)]"
proof -
  have "drop a (take b xs) = drop a (take b (map ((!) xs) [0..<length xs]))"
    by (simp add: map_nth)
  also have "\<dots> = map ((!) xs) (drop a (take b [0..<length xs]))"
    by (simp add: take_map drop_map)
  also have "take b [0..<length xs] = [0..<min b (length xs)]"
    by (simp add: min_def)
  also have "drop a [0..<min b (length xs)] = [a..<min b (length xs)]"
    by (simp add: drop_upt)
  finally show ?thesis .
qed

lemma lines_between_nth:
  assumes "0 < a"
  shows "lines_between xs a b = map ((!) xs) [a - 1..<b]"
proof -
  from assms obtain k where k: "a = Suc k" by (cases a) auto
  have "map (\<lambda>i. xs ! (i - 1)) [Suc k..<Suc b] = map ((!) xs) [k..<b]"
    by (simp add: map_Suc_upt [symmetric] del: upt_Suc)
  with k show ?thesis by (simp add: lines_between_def del: upt_Suc)
qed

lemma lines_between_empty: "b < a \<Longrightarrow> lines_between xs a b = []"
  by (simp add: lines_between_def)

lemma contents_of_open_file:
  assumes opened: "source d = Some p" "path_open env p = Inr fin"
      and sane: "0 \<le> maxsize env"
      and lo: "case start d of None \<Rightarrow> True | Some S \<Rightarrow> 0 < S \<and> S - 1 \<le> maxsize env"
      and hi: "case end' d of None \<Rightarrow> True | Some E \<Rightarrow> 0 < E \<and> E \<le> maxsize env"
  shows "contents env d =
           (fence_open d @
            lines_between fin
              (case start d of None \<Rightarrow> 1 | Some S \<Rightarrow> nat S)
              (case end' d of None \<Rightarrow> length fin | Some E \<Rightarrow> min (nat E) (length fin)) @
            fence_close d,
            None)"
proof -
  define a where "a = (case start d of None \<Rightarrow> 0 | Some S \<Rightarrow> S - 1)"
  define first where "first = (case start d of None \<Rightarrow> 1 | Some S \<Rightarrow> nat S)"
  define last where "last = (case end' d of None \<Rightarrow> length fin | Some E \<Rightarrow> min (nat E) (length fin))"
  have a: "0 \<le> a" "a \<le> maxsize env" "nat a = first - 1" "0 < first"
    using lo sane by (auto simp: a_def first_def split: option.splits)
  have "islice env fin a (end' d) = Inr (map ((!) fin) [first - 1..<last])"
  proof (cases "end' d")
    case None
    with a show ?thesis
      using drop_take_nth [of "first - 1" "length fin" fin]
      by (simp add: islice_def last_def)
  next
    case (Some E)
    with hi have "0 < E" "E \<le> maxsize env" by simp_all
    with Some a show ?thesis
      using drop_take_nth [of "first - 1" "nat E" fin]
      by (simp add: islice_def last_def)
  qed
  then have "islice env fin a (end' d) = Inr (lines_between fin first last)"
    using a(4) by (simp add: lines_between_nth)
  then show ?thesis
    using opened by (simp add: contents_def a_def first_def last_def)
qed

subsection \<open>A closing directive outside a directive pair\<close>

text \<open>
  Claim C1. With no directive open, a line that parses as a closing directive should pass
  to the output once, unchanged and without an error, in both modes. The loop yields the
  line when it sees that no directive is open and once more in the branch for a closing
  directive: the document that holds only \<^verbatim>\<open><!-- </inline> -->\<close> comes out with that line
  twice, transforming or cleaning. No error is raised.
\<close>

theorem stray_closing_is_yielded_twice:
  "result_generator example_env [close_inline] False = ([close_inline, close_inline], None) \<and>
   result_generator example_env [close_inline] True = ([close_inline, close_inline], None)"
  by code_simp

subsection \<open>Transforming the output of a transforming pass\<close>

lemma retransform_run:
  assumes "run env False cur n xs = (out, Inr s)"
      and "stray_closings env (cur \<noteq> None) n xs = []"
      and "list_all not_directive (inlined env n xs)"
      and "cur2 = None \<longleftrightarrow> cur = None"
  shows "\<exists>s2. run env False cur2 m out = (out, Inr s2) \<and> (s2 = None \<longleftrightarrow> s = None)"
  using assms
proof (induction xs arbitrary: cur n out cur2 m)
  case Nil
  then show ?case by simp
next
  case (Cons x xs)
  from Cons.prems(1) obtain o1 c1 o2 where
    st: "step env False cur n x = (o1, Inr c1)" and
    rn: "run env False c1 (Suc n) xs = (o2, Inr s)" and
    out: "out = o1 @ o2"
    by (auto split: prod.splits sum.splits)
  show ?case
  proof (cases "parse_directive env x n")
    case (Inl e)
    with st step_error [OF Inl, of False cur] show ?thesis by simp
  next
    case (Inr r)
    show ?thesis
    proof (cases r)
      case None
      with Inr have plain: "not_directive x" by (simp add: parse_directive_None_iff)
      with st have o1: "o1 = (if cur = None then [x] else [])" and c1: "c1 = cur"
        by (auto simp: step_plain split: if_splits)
      from Cons.prems(2,3) Inr None
      have h: "stray_closings env (c1 \<noteq> None) (Suc n) xs = []"
              "list_all not_directive (inlined env (Suc n) xs)"
        by (simp_all add: c1)
      show ?thesis
      proof (cases "cur = None")
        case True
        with Cons.prems(4) have c2: "cur2 = None" by simp
        from Cons.IH [OF rn h, of None "Suc m"] c1 True obtain s2 where
          "run env False None (Suc m) o2 = (o2, Inr s2)" "s2 = None \<longleftrightarrow> s = None"
          by auto
        with out o1 True c2 plain show ?thesis
          by (simp add: step_plain)
      next
        case False
        from Cons.IH [OF rn h, of cur2 m] c1 Cons.prems(4) obtain s2 where
          "run env False cur2 m o2 = (o2, Inr s2)" "s2 = None \<longleftrightarrow> s = None"
          by auto
        with out o1 False show ?thesis by simp
      qed
    next
      case (Some d)
      show ?thesis
      proof (cases "type d = OPENING")
        case True
        have idle: "cur = None"
        proof (cases cur)
          case None
          then show ?thesis .
        next
          case (Some c)
          with st step_open_opening [of env x n d False c] Inr \<open>r = Some d\<close> True
          show ?thesis by simp
        qed
        with Cons.prems(4) have c2: "cur2 = None" by simp
        from Inr Some have p: "parse_directive env x n = Inr (Some d)" by simp
        obtain ys where ys: "contents env d = (ys, None)" and o1: "o1 = x # ys" and c1: "c1 = Some d"
          using st idle step_idle_opening [OF p True, of False]
          by (auto split: prod.splits option.splits)
        from Cons.prems(2,3) p True ys
        have h: "stray_closings env (c1 \<noteq> None) (Suc n) xs = []"
                "list_all not_directive (inlined env (Suc n) xs)"
          and stale: "list_all not_directive ys"
          by (simp_all add: c1)
        let ?d' = "d\<lparr>lineno := m\<rparr>"
        have p': "parse_directive env x m = Inr (Some ?d')"
          by (rule parse_directive_shift [OF p])
        have st': "step env False None m x = (x # ys, Inr (Some ?d'))"
          using step_idle_opening [OF p', of False] True ys by simp
        from Cons.IH [OF rn h, of "Some ?d'" "Suc m + length ys"] c1 obtain s2 where
          s2: "run env False (Some ?d') (Suc m + length ys) o2 = (o2, Inr s2)" "s2 = None \<longleftrightarrow> s = None"
          by auto
        have "run env False (Some ?d') (Suc m) (ys @ o2) = (o2, Inr s2)"
          using run_append [OF run_stale [OF stale, of env False ?d' "Suc m"], of o2] s2(1)
          by simp
        with st' have "run env False None m (x # ys @ o2) = (x # ys @ o2, Inr s2)"
          by simp
        with out o1 c2 s2(2) show ?thesis by simp
      next
        case False
        from Inr Some have p: "parse_directive env x n = Inr (Some d)" by simp
        from Cons.prems(2) p False have opened: "cur \<noteq> None"
          by (auto split: if_splits)
        with Cons.prems(4) have c2: "cur2 \<noteq> None" by simp
        from st opened step_closing [OF p False, of False cur]
        have o1: "o1 = [x]" and c1: "c1 = None" by simp_all
        from Cons.prems(2,3) p False
        have h: "stray_closings env (c1 \<noteq> None) (Suc n) xs = []"
                "list_all not_directive (inlined env (Suc n) xs)"
          by (simp_all add: c1)
        from parse_directive_shift [OF p, of m] False
        have st': "step env False cur2 m x = ([x], Inr None)"
          using c2 step_closing [of env x m "d\<lparr>lineno := m\<rparr>" False cur2] by simp
        from Cons.IH [OF rn h, of None "Suc m"] c1 obtain s2 where
          "run env False None (Suc m) o2 = (o2, Inr s2)" "s2 = None \<longleftrightarrow> s = None"
          by auto
        with out o1 st' show ?thesis by simp
      qed
    qed
  qed
qed

text \<open>
  Claim C2, amended. Let the transforming pass succeed on a document in which no closing
  directive stands outside a directive pair and in which no line that the opening
  directives put into the output is itself a directive line. Then the transforming pass
  on the output of the first pass, with the same files, succeeds and yields that output
  again, line for line.
\<close>

theorem retransform_identical:
  assumes "result_generator env input_lines False = (out, None)"
      and "stray_closings env False 1 input_lines = []"
      and "list_all not_directive (inlined env 1 input_lines)"
  shows "result_generator env out False = (out, None)"
proof -
  from assms(1) have r: "run env False None 1 input_lines = (out, Inr None)"
    by (auto simp: result_generator_def split: prod.splits sum.splits option.splits)
  from retransform_run [OF r, of None 1] assms(2,3)
  have "run env False None 1 out = (out, Inr None)" by auto
  then show ?thesis by (simp add: result_generator_def)
qed

theorem retransform_identical_witness:
  "result_generator example_env
     ([''head\<newline>'', open_f] @ file_f @ [close_inline, ''tail\<newline>'']) False =
   ([''head\<newline>'', open_f] @ file_f @ [close_inline, ''tail\<newline>''], None)"
proof -
  have h1: "result_generator example_env
              [''head\<newline>'', open_f, ''stale\<newline>'', close_inline, ''tail\<newline>''] False =
            ([''head\<newline>'', open_f] @ file_f @ [close_inline, ''tail\<newline>''], None)"
    by code_simp
  have h2: "stray_closings example_env False 1
              [''head\<newline>'', open_f, ''stale\<newline>'', close_inline, ''tail\<newline>''] = []"
    by code_simp
  have h3: "list_all not_directive (inlined example_env 1
              [''head\<newline>'', open_f, ''stale\<newline>'', close_inline, ''tail\<newline>''])"
    by code_simp
  from retransform_identical [OF h1 h2 h3] show ?thesis .
qed

text \<open>
  Without the condition on the inlined lines the claim fails: file \<open>h\<close> holds one line, an
  opening directive. The first pass puts it between the markers; the second pass meets it
  while the directive for \<open>h\<close> is open and stops with an error.
\<close>

theorem retransform_counterexample:
  "result_generator example_env [open_h, close_inline] False =
     ([open_h, open_f, close_inline], None) \<and>
   result_generator example_env [open_h, open_f, close_inline] False =
     ([open_h, open_f],
      Some (InlineError ''New directive found while previous is still open at line 1'' open_f 2))"
  by code_simp

subsection \<open>The bounds of the inlined lines\<close>

text \<open>
  Claim C3, amended. For a valid opening directive over a file of \<open>N\<close> lines whose
  \<open>start = S\<close> and \<open>end = E\<close>, where present, are positive and within what the slice
  accepts (\<open>S - 1\<close> and \<open>E\<close> at most \<^verbatim>\<open>sys.maxsize\<close>), the contents are the opening fence,
  the lines \<open>S\<close> to \<open>min E N\<close> of the file counted from 1 with both ends included, and the
  closing fence; an absent start stands for line 1, an absent end for the last line, and
  with \<open>S > N\<close> no line of the file is included.
\<close>

theorem contents_bounds:
  assumes valid: "opening_directive env n ln src vb lg st en = Inr d"
      and sane: "0 \<le> maxsize env"
      and lo: "case start d of None \<Rightarrow> True | Some S \<Rightarrow> 0 < S \<and> S - 1 \<le> maxsize env"
      and hi: "case end' d of None \<Rightarrow> True | Some E \<Rightarrow> 0 < E \<and> E \<le> maxsize env"
  shows "\<exists>p fin. source d = Some p \<and> path_open env p = Inr fin \<and>
           contents env d =
             (fence_open d @
              lines_between fin
                (case start d of None \<Rightarrow> 1 | Some S \<Rightarrow> nat S)
                (case end' d of None \<Rightarrow> length fin | Some E \<Rightarrow> min (nat E) (length fin)) @
              fence_close d,
              None) \<and>
           (case start d of None \<Rightarrow> True
            | Some S \<Rightarrow> length fin < nat S \<longrightarrow> contents env d = (fence_open d @ fence_close d, None))"
proof -
  from opening_directive_source [OF valid] obtain p fin where
    opened: "source d = Some p" "path_open env p = Inr fin" by blast
  from contents_of_open_file [OF opened sane lo hi]
  have c: "contents env d =
             (fence_open d @
              lines_between fin
                (case start d of None \<Rightarrow> 1 | Some S \<Rightarrow> nat S)
                (case end' d of None \<Rightarrow> length fin | Some E \<Rightarrow> min (nat E) (length fin)) @
              fence_close d,
              None)" .
  have "case start d of None \<Rightarrow> True
        | Some S \<Rightarrow> length fin < nat S \<longrightarrow> contents env d = (fence_open d @ fence_close d, None)"
  proof (cases "start d")
    case None
    then show ?thesis by simp
  next
    case (Some S)
    have "length fin < nat S \<Longrightarrow>
            lines_between fin (nat S)
              (case end' d of None \<Rightarrow> length fin | Some E \<Rightarrow> min (nat E) (length fin)) = []"
      by (rule lines_between_empty) (auto split: option.splits)
    with c Some show ?thesis by simp
  qed
  with opened c show ?thesis by blast
qed

theorem contents_bounds_witness:
  "contents example_env
     \<lparr>type = OPENING, lineno = 2, line = range_line, source = Some ''f'',
      verbatim = False, lang = None, start = Some 4, end' = Some 6\<rparr> =
   ([''line 4\<newline>'', ''line 5\<newline>'', ''line 6\<newline>''], None)"
proof -
  let ?d = "\<lparr>type = OPENING, lineno = 2, line = range_line, source = Some ''f'',
      verbatim = False, lang = None, start = Some 4, end' = Some 6\<rparr>"
  have v: "opening_directive example_env 2 range_line (Some ''f'') False None
             (Some ''4'') (Some ''6'') = Inr ?d"
    by code_simp
  have sane: "0 \<le> maxsize example_env"
    by code_simp
  have lo: "case start ?d of None \<Rightarrow> True | Some S \<Rightarrow> 0 < S \<and> S - 1 \<le> maxsize example_env"
    by code_simp
  have hi: "case end' ?d of None \<Rightarrow> True | Some E \<Rightarrow> 0 < E \<and> E \<le> maxsize example_env"
    by code_simp
  have f: "path_open example_env ''f'' = Inr file_f" "length file_f = 10"
    by code_simp+
  have l: "lines_between file_f 4 6 = [''line 4\<newline>'', ''line 5\<newline>'', ''line 6\<newline>'']"
    by code_simp
  from contents_bounds [OF v sane lo hi] f l show ?thesis
    by (simp add: fence_open_def fence_close_def)
qed

text \<open>
  An end beyond \<^verbatim>\<open>sys.maxsize\<close> is a positive integer that the constructor accepts, and
  the slice rejects it: the contents end with a ValueError and no line of the file.
\<close>

theorem contents_huge_end_counterexample:
  "opening_directive example_env 1 huge_end_line (Some ''f'') False None
     None (Some ''9223372036854775808'') =
     Inr \<lparr>type = OPENING, lineno = 1, line = huge_end_line, source = Some ''f'',
          verbatim = False, lang = None, start = None, end' = Some 9223372036854775808\<rparr> \<and>
   contents example_env
     \<lparr>type = OPENING, lineno = 1, line = huge_end_line, source = Some ''f'',
      verbatim = False, lang = None, start = None, end' = Some 9223372036854775808\<rparr> =
     ([], Some (ValueError stop_msg))"
  by code_simp

subsection \<open>The end of the input with a directive open\<close>

text \<open>
  Claim C4. When the input ends while a directive is open, the scan raises the directive
  error "Directive not closed at end of file"; the error carries the text and the number,
  counted from 1, of the line that opened the directive. So does the validating pass.
\<close>

theorem unclosed_directive_error:
  assumes "run env clean None 1 input_lines = (out, Inr (Some d))"
  shows "result_generator env input_lines clean =
           (out, Some (InlineError ''Directive not closed at end of file'' (line d) (lineno d))) \<and>
         check env input_lines clean =
           Some (InlineError ''Directive not closed at end of file'' (line d) (lineno d)) \<and>
         InlineError_str ''Directive not closed at end of file'' (line d) (lineno d) =
           ''Line '' @ str_nat (lineno d) @ '': Directive not closed at end of file\<newline>'' @ line d \<and>
         1 \<le> lineno d \<and> lineno d \<le> length input_lines \<and>
         input_lines ! (lineno d - 1) = line d \<and>
         parse_directive env (line d) (lineno d) = Inr (Some d) \<and> type d = OPENING"
proof -
  have "result_generator env input_lines clean =
           (out, Some (InlineError ''Directive not closed at end of file'' (line d) (lineno d)))"
    using assms by (simp add: result_generator_def)
  moreover from run_open_state [OF assms]
  have "1 \<le> lineno d \<and> lineno d \<le> length input_lines \<and>
        input_lines ! (lineno d - 1) = line d \<and>
        parse_directive env (line d) (lineno d) = Inr (Some d) \<and> type d = OPENING"
    by auto
  ultimately show ?thesis by (simp add: check_def InlineError_str_def)
qed

theorem unclosed_directive_error_witness:
  "run example_env False None 1 [''line 1\<newline>'', open_f] =
     (''line 1\<newline>'' # open_f # file_f,
      Inr (Some \<lparr>type = OPENING, lineno = 2, line = open_f, source = Some ''f'',
                 verbatim = False, lang = None, start = None, end' = None\<rparr>)) \<and>
   check example_env [''line 1\<newline>'', open_f] False =
     Some (InlineError ''Directive not closed at end of file'' open_f 2)"
proof -
  have h: "run example_env False None 1 [''line 1\<newline>'', open_f] =
     (''line 1\<newline>'' # open_f # file_f,
      Inr (Some \<lparr>type = OPENING, lineno = 2, line = open_f, source = Some ''f'',
                 verbatim = False, lang = None, start = None, end' = None\<rparr>))"
    by code_simp
  from unclosed_directive_error [OF h] show ?thesis
    using h by simp
qed

subsection \<open>An opening directive inside a directive pair\<close>

text \<open>
  Claim C5. A line that parses as an opening directive while an earlier directive is still
  open ends the scan with a directive error; its message names the line number of the
  directive that is open, which is a line of the input before this one.
\<close>

theorem nested_opening_error:
  assumes "run env clean None 1 pre = (out, Inr (Some c))"
      and "parse_directive env ln (Suc (length pre)) = Inr (Some d)"
      and "type d = OPENING"
  shows "result_generator env (pre @ ln # rest) clean =
           (out, Some (InlineError
              (''New directive found while previous is still open at line '' @ str_nat (lineno c))
              ln (Suc (length pre)))) \<and>
         1 \<le> lineno c \<and> lineno c \<le> length pre \<and> pre ! (lineno c - 1) = line c"
proof -
  have "run env clean None 1 (pre @ ln # rest) =
          (out, Inl (InlineError
              (''New directive found while previous is still open at line '' @ str_nat (lineno c))
              ln (Suc (length pre))))"
    using run_append [OF assms(1), of "ln # rest"] step_open_opening [OF assms(2,3), of clean c]
    by simp
  moreover from run_open_state [OF assms(1)]
  have "1 \<le> lineno c \<and> lineno c \<le> length pre \<and> pre ! (lineno c - 1) = line c"
    by auto
  ultimately show ?thesis by (simp add: result_generator_def)
qed

theorem nested_opening_error_witness:
  "result_generator example_env [open_f, open_f, close_inline] True =
     ([open_f], Some (InlineError
        ''New directive found while previous is still open at line 1'' open_f 2))"
proof -
  have h1: "run example_env True None 1 [open_f] =
     ([open_f],
      Inr (Some \<lparr>type = OPENING, lineno = 1, line = open_f, source = Some ''f'',
                 verbatim = False, lang = None, start = None, end' = None\<rparr>))"
    by code_simp
  have h2: "parse_directive example_env open_f (Suc (length [open_f])) =
     Inr (Some \<lparr>type = OPENING, lineno = 2, line = open_f, source = Some ''f'',
                verbatim = False, lang = None, start = None, end' = None\<rparr>)"
    by code_simp
  have s1: "str_nat (Suc 0) = ''1''"
    by code_simp
  from nested_opening_error [OF h1 h2, of "[close_inline]"] show ?thesis
    by (simp add: s1)
qed

subsection \<open>The source file is checked when the directive is made\<close>



subsection \<open>Tags that are not well formed\<close>




subsection \<open>Which comment texts are directives\<close>

text \<open>
  Claim C8, amended. A comment text is handled as an opening directive exactly when it
  starts with \<^verbatim>\<open><inline\<close> or \<^verbatim>\<open><python\<close> followed by one space character: parsing then
  gives an opening directive or raises. Otherwise the texts \<^verbatim>\<open></inline>\<close> and \<^verbatim>\<open></python>\<close>
  are closing directives, and every other text, like every line that is no comment, is no
  directive.
\<close>

theorem directive_kind_by_text:
  "case extract_line_comment ln of
     None \<Rightarrow> parse_directive env ln n = Inr None
   | Some t \<Rightarrow>
       if take 8 t = ''<inline '' \<or> take 8 t = ''<python '' then
         (\<exists>e. parse_directive env ln n = Inl e) \<or>
         (\<exists>d. parse_directive env ln n = Inr (Some d) \<and> type d = OPENING)
       else if t = ''</inline>'' \<or> t = ''</python>'' then
         parse_directive env ln n = Inr (Some (closing_directive n ln)) \<and>
         type (closing_directive n ln) = CLOSING
       else parse_directive env ln n = Inr None"
proof (cases "extract_line_comment ln")
  case None
  then show ?thesis by (simp add: parse_directive_def)
next
  case (Some t)
  show ?thesis
  proof (cases "looks_opening t")
    case True
    have "(\<exists>e. parse_directive env ln n = Inl e) \<or>
         (\<exists>d. parse_directive env ln n = Inr (Some d) \<and> type d = OPENING)"
    proof (cases "parse_directive env ln n")
      case (Inl e)
      then show ?thesis by simp
    next
      case (Inr r)
      show ?thesis
      proof (cases r)
        case None
        with Inr have "not_directive ln" by (simp add: parse_directive_None_iff)
        with Some True show ?thesis by (simp add: not_directive_def)
      next
        case (Some d)
        from Inr Some True parse_directive_kind [of env ln n d t] \<open>extract_line_comment ln = Some t\<close>
        have "type d = OPENING" by simp
        with Inr Some show ?thesis by simp
      qed
    qed
    with Some True show ?thesis
      unfolding looks_opening_take is_closing_text_eq by simp
  next
    case False
    with Some show ?thesis
      unfolding looks_opening_take is_closing_text_eq
      by (simp add: parse_directive_def closing_directive_def)
  qed
qed

theorem directive_kind_by_text_witness:
  "((\<exists>e. parse_directive example_env open_f 3 = Inl e) \<or>
    (\<exists>d. parse_directive example_env open_f 3 = Inr (Some d) \<and> type d = OPENING)) \<and>
   parse_directive example_env close_inline 3 = Inr (Some (closing_directive 3 close_inline)) \<and>
   parse_directive example_env tab_line 3 = Inr None"
proof -
  have o: "extract_line_comment open_f = Some (take 16 (drop 5 open_f))"
    and o': "take 8 (take 16 (drop 5 open_f)) = ''<inline ''"
    by code_simp+
  have c: "extract_line_comment close_inline = Some ''</inline>''"
    by code_simp
  have t: "extract_line_comment tab_line = Some tab_text"
    and t': "take 8 tab_text \<noteq> ''<inline ''" "take 8 tab_text \<noteq> ''<python ''"
       "tab_text \<noteq> ''</inline>''" "tab_text \<noteq> ''</python>''"
    by code_simp+
  from directive_kind_by_text [where ln = open_f and env = example_env and n = 3] o o'
  have "(\<exists>e. parse_directive example_env open_f 3 = Inl e) \<or>
        (\<exists>d. parse_directive example_env open_f 3 = Inr (Some d) \<and> type d = OPENING)"
    by simp
  moreover from directive_kind_by_text [where ln = close_inline and env = example_env and n = 3] c
  have "parse_directive example_env close_inline 3 = Inr (Some (closing_directive 3 close_inline))"
    by simp
  moreover from directive_kind_by_text [where ln = tab_line and env = example_env and n = 3] t t'
  have "parse_directive example_env tab_line 3 = Inr None"
    by simp
  ultimately show ?thesis by blast
qed

text \<open>
  A tab after the tag name matches the pattern \<^verbatim>\<open>^<(inline|python)\s\<close> of the claim, and
  the line is no directive.
\<close>

theorem looks_opening_counterexample:
  "extract_line_comment tab_line = Some tab_text \<and>
   spec_looks_opening tab_text \<and>
   parse_directive example_env tab_line 1 = Inr None"
  by code_simp

subsection \<open>Cleaning, then transforming\<close>

text \<open>
  Claim C9. Cleaning a document and transforming the result should give what transforming
  the document gives. For the document that holds only a closing directive, cleaning
  yields the line twice, transforming these two lines yields four, and transforming the
  document itself yields two.
\<close>

theorem clean_then_transform_diverges:
  "result_generator example_env [close_inline] True = ([close_inline, close_inline], None) \<and>
   result_generator example_env [close_inline, close_inline] False =
     ([close_inline, close_inline, close_inline, close_inline], None) \<and>
   result_generator example_env [close_inline] False = ([close_inline, close_inline], None)"
  by code_simp

text \<open>
  The closing directive outside a pair is the only obstacle: when the cleaning pass
  succeeds on a document without one, transforming the cleaned document gives the lines,
  and the error if any, that transforming the document gives.
\<close>

lemma clean_transform_run:
  assumes "run env True cur n xs = (cleaned, Inr s)"
      and "stray_closings env (cur \<noteq> None) n xs = []"
      and "cur2 = None \<longleftrightarrow> cur = None"
  shows "\<exists>out r1 r2.
           run env False cur n xs = (out, r1) \<and> run env False cur2 m cleaned = (out, r2) \<and>
           (case r1 of
              Inl e \<Rightarrow> r2 = Inl e
            | Inr s1 \<Rightarrow> (s1 = None \<longleftrightarrow> s = None) \<and>
                       (\<exists>s2. r2 = Inr s2 \<and> (s2 = None \<longleftrightarrow> s1 = None)))"
  using assms
proof (induction xs arbitrary: cur n cleaned cur2 m)
  case Nil
  then show ?case by simp
next
  case (Cons x xs)
  from Cons.prems(1) obtain o1 c1 o2 where
    st: "step env True cur n x = (o1, Inr c1)" and
    rn: "run env True c1 (Suc n) xs = (o2, Inr s)" and
    out: "cleaned = o1 @ o2"
    by (auto split: prod.splits sum.splits)
  show ?case
  proof (cases "parse_directive env x n")
    case (Inl e)
    with st step_error [OF Inl, of True cur] show ?thesis by simp
  next
    case (Inr r)
    show ?thesis
    proof (cases r)
      case None
      with Inr have plain: "not_directive x" by (simp add: parse_directive_None_iff)
      with st have o1: "o1 = (if cur = None then [x] else [])" and c1: "c1 = cur"
        by (auto simp: step_plain split: if_splits)
      from Cons.prems(2) Inr None
      have h: "stray_closings env (c1 \<noteq> None) (Suc n) xs = []"
        by (simp add: c1)
      show ?thesis
      proof (cases "cur = None")
        case True
        with Cons.prems(3) have c2: "cur2 = None" by simp
        from Cons.IH [OF rn h, of None "Suc m"] c1 True obtain o3 r1 r2 where
          "run env False None (Suc n) xs = (o3, r1)" "run env False None (Suc m) o2 = (o3, r2)"
          "case r1 of
             Inl e \<Rightarrow> r2 = Inl e
           | Inr s1 \<Rightarrow> (s1 = None \<longleftrightarrow> s = None) \<and>
                      (\<exists>s2. r2 = Inr s2 \<and> (s2 = None \<longleftrightarrow> s1 = None))"
          by blast
        with out o1 True c2 plain show ?thesis
          by (simp add: step_plain split: prod.splits)
      next
        case False
        from Cons.IH [OF rn h, of cur2 m] c1 Cons.prems(3) obtain o3 r1 r2 where
          "run env False cur (Suc n) xs = (o3, r1)" "run env False cur2 m o2 = (o3, r2)"
          "case r1 of
             Inl e \<Rightarrow> r2 = Inl e
           | Inr s1 \<Rightarrow> (s1 = None \<longleftrightarrow> s = None) \<and>
                      (\<exists>s2. r2 = Inr s2 \<and> (s2 = None \<longleftrightarrow> s1 = None))"
          by blast
        with out o1 False plain show ?thesis
          by (simp add: step_plain split: prod.splits)
      qed
    next
      case (Some d)
      from Inr Some have p: "parse_directive env x n = Inr (Some d)" by simp
      show ?thesis
      proof (cases "type d = OPENING")
        case True
        have idle: "cur = None"
        proof (cases cur)
          case None
          then show ?thesis .
        next
          case (Some c)
          with st step_open_opening [OF p True, of True c]
          show ?thesis by simp
        qed
        with Cons.prems(3) have c2: "cur2 = None" by simp
        from st idle step_idle_opening [OF p True, of True]
        have o1: "o1 = [x]" and c1: "c1 = Some d" by simp_all
        from Cons.prems(2) p True
        have h: "stray_closings env (c1 \<noteq> None) (Suc n) xs = []"
          by (simp add: c1)
        let ?d' = "d\<lparr>lineno := m\<rparr>"
        have p': "parse_directive env x m = Inr (Some ?d')"
          by (rule parse_directive_shift [OF p])
        obtain ys e where ys: "contents env d = (ys, e)" by (cases "contents env d")
        show ?thesis
        proof (cases e)
          case (Some err)
          with ys idle c2 out o1 step_idle_opening [OF p True, of False]
            step_idle_opening [OF p', of False] True
          show ?thesis by simp
        next
          case None
          with ys idle step_idle_opening [OF p True, of False]
          have s1: "step env False cur n x = (x # ys, Inr (Some d))" by simp
          from None ys step_idle_opening [OF p', of False] True
          have s2: "step env False None m x = (x # ys, Inr (Some ?d'))" by simp
          from Cons.IH [OF rn h, of "Some ?d'" "Suc m"] c1 obtain o3 r1 r2 where
          "run env False (Some d) (Suc n) xs = (o3, r1)" "run env False (Some ?d') (Suc m) o2 = (o3, r2)"
          "case r1 of
             Inl e \<Rightarrow> r2 = Inl e
           | Inr s1 \<Rightarrow> (s1 = None \<longleftrightarrow> s = None) \<and>
                      (\<exists>s2. r2 = Inr s2 \<and> (s2 = None \<longleftrightarrow> s1 = None))"
          by blast
          with out o1 c2 s1 s2 show ?thesis
            by (simp split: prod.splits)
        qed
      next
        case False
        from Cons.prems(2) p False have opened: "cur \<noteq> None"
          by (auto split: if_splits)
        with Cons.prems(3) have c2: "cur2 \<noteq> None" by simp
        from st opened step_closing [OF p False, of True cur]
        have o1: "o1 = [x]" and c1: "c1 = None" by simp_all
        from opened step_closing [OF p False, of False cur]
        have s1: "step env False cur n x = ([x], Inr None)" by simp
        from Cons.prems(2) p False
        have h: "stray_closings env (c1 \<noteq> None) (Suc n) xs = []"
          by (simp add: c1)
        from parse_directive_shift [OF p, of m] False
        have s2: "step env False cur2 m x = ([x], Inr None)"
          using c2 step_closing [of env x m "d\<lparr>lineno := m\<rparr>" False cur2] by simp
        from Cons.IH [OF rn h, of None "Suc m"] c1 obtain o3 r1 r2 where
          "run env False None (Suc n) xs = (o3, r1)" "run env False None (Suc m) o2 = (o3, r2)"
          "case r1 of
             Inl e \<Rightarrow> r2 = Inl e
           | Inr s1 \<Rightarrow> (s1 = None \<longleftrightarrow> s = None) \<and>
                      (\<exists>s2. r2 = Inr s2 \<and> (s2 = None \<longleftrightarrow> s1 = None))"
          by blast
        with out o1 s1 s2 show ?thesis
          by (simp split: prod.splits)
      qed
    qed
  qed
qed

lemma transform_after_clean:
  assumes "result_generator env input_lines True = (cleaned, None)"
      and "stray_closings env False 1 input_lines = []"
  shows "result_generator env cleaned False = result_generator env input_lines False"
proof -
  from assms(1) have r: "run env True None 1 input_lines = (cleaned, Inr None)"
    by (auto simp: result_generator_def split: prod.splits sum.splits option.splits)
  have "stray_closings env ((None :: InlineDirective option) \<noteq> None) 1 input_lines = []"
    using assms(2) by simp
  from clean_transform_run [OF r this, of None 1] obtain out r1 r2 where
    "run env False None 1 input_lines = (out, r1)" "run env False None 1 cleaned = (out, r2)"
    "case r1 of
       Inl e \<Rightarrow> r2 = Inl e
     | Inr s1 \<Rightarrow> (s1 = None \<longleftrightarrow> (None :: InlineDirective option) = None) \<and>
                (\<exists>s2. r2 = Inr s2 \<and> (s2 = None \<longleftrightarrow> s1 = None))"
    by blast
  then show ?thesis
    by (auto simp: result_generator_def split: sum.splits option.splits)
qed

subsection \<open>A start that is not positive\<close>

text \<open>
  Claim C10. When the \<open>start\<close> attribute is the text of an integer that is zero or
  negative, and the source and the \<open>end\<close> attribute are valid, the opening directive is
  made without an error. Its contents yield at most the opening fence and then end with a
  ValueError of the slice, which is no directive error. So a transforming pass fails at
  that line only when it asks for the contents, and a cleaning pass does not fail there.
\<close>

theorem nonpositive_start_untagged_error:
  assumes "int_of env s = Some v" and "v \<le> 0"
      and "validate_source env ln n src = Inr p"
      and "coerce env ln n ''end'' en = Inr e"
  shows "\<exists>d m. opening_directive env n ln src vb lg (Some s) en = Inr d \<and>
           type d = OPENING \<and> start d = Some v \<and>
           contents env d = (fence_open d, Some (ValueError m)) \<and>
           \<not> is_InlineError (ValueError m) \<and>
           (parse_directive env ln n = Inr (Some d) \<longrightarrow>
              step env False None n ln = (ln # fence_open d, Inl (ValueError m)) \<and>
              step env True None n ln = ([ln], Inr (Some d)))"
proof -
  define d where "d = \<lparr>type = OPENING, lineno = n, line = ln, source = Some p,
                         verbatim = vb, lang = lg, start = Some v, end' = e\<rparr>"
  have od: "opening_directive env n ln src vb lg (Some s) en = Inr d"
    using assms by (simp add: opening_directive_def coerce_def d_def)
  from opening_directive_source [OF od] obtain fin where
    fin: "path_open env p = Inr fin" by (auto simp: d_def)
  define m where
    "m = (if (case e of None \<Rightarrow> False
              | Some b \<Rightarrow> b = - 1 \<or> maxsize env < b \<or> b < - maxsize env - 1)
          then stop_msg else indices_msg)"
  have m: "islice env fin (v - 1) e = Inl (ValueError m)"
    using assms(2) by (simp add: islice_def m_def)
  have c: "contents env d = (fence_open d, Some (ValueError m))"
    using fin m by (simp add: contents_def d_def)
  have "parse_directive env ln n = Inr (Some d) \<longrightarrow>
              step env False None n ln = (ln # fence_open d, Inl (ValueError m)) \<and>
              step env True None n ln = ([ln], Inr (Some d))"
    using c by (simp add: step_def) (simp add: d_def)
  with od c show ?thesis by (auto simp: d_def)
qed

theorem nonpositive_start_untagged_error_witness:
  "result_generator example_env [start0_line, close_inline] False =
     ([start0_line, ''```python\<newline>''], Some (ValueError indices_msg)) \<and>
   result_generator example_env [start0_line, close_inline] True =
     ([start0_line, close_inline], None)"
proof -
  let ?d = "\<lparr>type = OPENING, lineno = 1, line = start0_line, source = Some ''f'',
             verbatim = True, lang = Some ''python'', start = Some 0, end' = None\<rparr>"
  have h: "int_of example_env ''0'' = Some 0" "(0::int) \<le> 0"
          "validate_source example_env start0_line 1 (Some ''f'') = Inr ''f''"
          "coerce example_env start0_line 1 ''end'' None = Inr None"
    by code_simp+
  have p: "parse_directive example_env start0_line 1 = Inr (Some ?d)"
    by code_simp
  have od: "opening_directive example_env 1 start0_line (Some ''f'') True (Some ''python'')
              (Some ''0'') None = Inr ?d"
    by code_simp
  have c: "contents example_env ?d = ([''```python\<newline>''], Some (ValueError indices_msg))"
    by code_simp
  have f: "fence_open ?d = [''```python\<newline>'']"
    by code_simp
  have r: "run example_env True (Some ?d) 2 [close_inline] = ([close_inline], Inr None)"
    by code_simp
  from nonpositive_start_untagged_error [OF h, where vb = True and lg = "Some ''python''"] od p c f
  have "step example_env False None 1 start0_line =
          ([start0_line, ''```python\<newline>''], Inl (ValueError indices_msg)) \<and>
        step example_env True None 1 start0_line = ([start0_line], Inr (Some ?d))"
    by auto
  with r show ?thesis
    by (simp add: result_generator_def numeral_2_eq_2)
qed

end
